theory Spec2Isabelle
  imports Main
begin

section \<open>Python primitives used by the emulator\<close>

text \<open>
  The emulator keeps every machine word as a Python string of the characters 0 and 1.
  Strings are modelled as lists of characters (code points below 256), Python integers
  as \<open>int\<close>, lengths and widths as \<open>nat\<close>, and every exception as a value.
\<close>

datatype error =
    IndexError
  | ValueError
  | AssertionError
  | TypeError
  | UnboundLocalError
  | ZeroDivisionError

text \<open>\<open>str.isspace\<close> for one character below code point 256.\<close>

definition py_isspace :: "char \<Rightarrow> bool" where
  "py_isspace c =
     (let n = (of_char c :: nat)
      in (9 \<le> n \<and> n \<le> 13) \<or> (28 \<le> n \<and> n \<le> 32) \<or> n = 133 \<or> n = 160)"

definition py_strip :: "string \<Rightarrow> string" where
  "py_strip s = rev (dropWhile py_isspace (rev (dropWhile py_isspace s)))"

text \<open>\<open>s.lstrip(chars)\<close>: drops every leading character that occurs in \<open>chars\<close>.\<close>

definition py_lstrip :: "string \<Rightarrow> string \<Rightarrow> string" where
  "py_lstrip s chars = dropWhile (\<lambda>c. c \<in> set chars) s"

text \<open>
  The value of a character as a digit: 0 to 9, then the letters of either case as
  10 to 35; any other character gets 37, which is no digit of any base.
\<close>

definition digit_value :: "char \<Rightarrow> nat" where
  "digit_value c =
     (let n = (of_char c :: nat)
      in if 48 \<le> n \<and> n \<le> 57 then n - 48
         else if 97 \<le> n \<and> n \<le> 122 then n - 87
         else if 65 \<le> n \<and> n \<le> 90 then n - 55
         else 37)"

text \<open>
  The digit part of an integer literal: digits of the base, where one underscore may
  stand between two digits, and at least one digit.
\<close>

fun digits_ok :: "nat \<Rightarrow> string \<Rightarrow> bool" where
  "digits_ok b [] = False"
| "digits_ok b [c] = (digit_value c < b)"
| "digits_ok b (c # d # cs) =
     (digit_value c < b \<and>
      (if d = CHR ''_'' then digits_ok b cs else digits_ok b (d # cs)))"

definition digits_value :: "nat \<Rightarrow> string \<Rightarrow> nat" where
  "digits_value b ds =
     foldl (\<lambda>acc c. acc * b + digit_value c) 0 (filter (\<lambda>c. c \<noteq> CHR ''_'') ds)"

definition base_letter :: "nat \<Rightarrow> char \<Rightarrow> bool" where
  "base_letter b p =
     ((b = 16 \<and> (p = CHR ''x'' \<or> p = CHR ''X'')) \<or>
      (b = 8 \<and> (p = CHR ''o'' \<or> p = CHR ''O'')) \<or>
      (b = 2 \<and> (p = CHR ''b'' \<or> p = CHR ''B'')))"

text \<open>
  \<open>int(s, base)\<close> for a string: surrounding whitespace is dropped, then come an optional
  sign, an optional base prefix (which one underscore may follow) and the digits.
  Anything else raises ValueError.
\<close>

definition py_int :: "string \<Rightarrow> nat \<Rightarrow> error + int" where
  "py_int s b =
     (let t = py_strip s;
          neg = (t \<noteq> [] \<and> hd t = CHR ''-'');
          u = (if t \<noteq> [] \<and> (hd t = CHR ''-'' \<or> hd t = CHR ''+'') then tl t else t);
          v = (case u of
                 z # p # r \<Rightarrow>
                   if z = CHR ''0'' \<and> base_letter b p
                   then (case r of [] \<Rightarrow> r | q # r' \<Rightarrow> if q = CHR ''_'' then r' else r)
                   else u
               | _ \<Rightarrow> u)
      in if digits_ok b v
         then Inr (if neg then - int (digits_value b v) else int (digits_value b v))
         else Inl ValueError)"

text \<open>The binary digits of a natural number, most significant first, as \<open>bin\<close> prints them.\<close>

fun bin_digits :: "nat \<Rightarrow> string" where
  "bin_digits n =
     (if n < 2 then [if n = 0 then CHR ''0'' else CHR ''1'']
      else bin_digits (n div 2) @ [if n mod 2 = 0 then CHR ''0'' else CHR ''1''])"

declare bin_digits.simps [simp del]

definition py_bin :: "int \<Rightarrow> string" where
  "py_bin n = (if n < 0 then ''-0b'' @ bin_digits (nat (- n)) else ''0b'' @ bin_digits (nat n))"

text \<open>
  \<open>s.zfill(width)\<close>: zeros are put on the left up to the width, after a leading sign
  when there is one; a string that is long enough is returned as it is.
\<close>

definition py_zfill :: "string \<Rightarrow> nat \<Rightarrow> string" where
  "py_zfill s width =
     (if width \<le> length s then s
      else case s of
             c # r \<Rightarrow>
               if c = CHR ''+'' \<or> c = CHR ''-''
               then c # replicate (width - length s) CHR ''0'' @ r
               else replicate (width - length s) CHR ''0'' @ s
           | [] \<Rightarrow> replicate width CHR ''0'')"

text \<open>\<open>xs[i]\<close> on a list: a negative index counts from the end, out of range raises.\<close>

definition py_index :: "'a list \<Rightarrow> int \<Rightarrow> error + nat" where
  "py_index xs i =
     (let n = int (length xs); j = (if i < 0 then i + n else i)
      in if 0 \<le> j \<and> j < n then Inr (nat j) else Inl IndexError)"

section \<open>The numeric codec\<close>

definition binary_to_decimal :: "string \<Rightarrow> error + int" where
  "binary_to_decimal binary_string =
     (case binary_string of
        [] \<Rightarrow> Inl IndexError
      | c # _ \<Rightarrow>
          if c = CHR ''1''
          then (case py_int binary_string 2 of
                  Inl e \<Rightarrow> Inl e
                | Inr v \<Rightarrow> Inr (v - 2 ^ length binary_string))
          else py_int binary_string 2)"

definition decimal_to_binary :: "int \<Rightarrow> nat \<Rightarrow> string" where
  "decimal_to_binary decimal_number bit_width =
     (let binary_string =
            (if decimal_number < 0
             then drop 2 (py_bin (decimal_number + 2 ^ bit_width))
             else drop 2 (py_bin decimal_number))
      in py_zfill binary_string bit_width)"

definition hex_to_binary :: "string \<Rightarrow> nat \<Rightarrow> error + string" where
  "hex_to_binary hex_number bit_width =
     (case py_int (py_lstrip hex_number ''0x'') 16 of
        Inl e \<Rightarrow> Inl e
      | Inr n \<Rightarrow> Inr (take bit_width (py_zfill (drop 2 (py_bin n)) bit_width)))"

section \<open>Registers\<close>

text \<open>
  Objects that other objects hold a reference to live in a heap; a reference is a
  number. Registers and arithmetic units are referenced (an arithmetic unit keeps its
  two operand registers, a flag keeps what it watches), so a write to a register is
  seen by every object that refers to it.
\<close>

type_synonym ref = nat

record Register =
  reg_state :: string

record ALU =
  alu_a :: ref
  alu_b :: ref
  alu_state :: string

record heap =
  regs :: "ref \<Rightarrow> Register"
  alus :: "ref \<Rightarrow> ALU"

definition Register_init :: Register where
  "Register_init = \<lparr>reg_state = []\<rparr>"

definition Register_read :: "Register \<Rightarrow> string" where
  "Register_read self = reg_state self"

definition Register_write :: "Register \<Rightarrow> string \<Rightarrow> Register" where
  "Register_write self data = self\<lparr>reg_state := data\<rparr>"

definition ByteRegister_init :: Register where
  "ByteRegister_init = \<lparr>reg_state = replicate 8 CHR ''0''\<rparr>"

definition NibbleRegister_init :: Register where
  "NibbleRegister_init = \<lparr>reg_state = replicate 4 CHR ''0''\<rparr>"

text \<open>Reading and writing a register through its reference.\<close>

definition read_ref :: "heap \<Rightarrow> ref \<Rightarrow> string" where
  "read_ref h r = Register_read (regs h r)"

definition write_ref :: "heap \<Rightarrow> ref \<Rightarrow> string \<Rightarrow> heap" where
  "write_ref h r data = h\<lparr>regs := (regs h)(r := Register_write (regs h r) data)\<rparr>"

section \<open>The memory block\<close>

text \<open>
  The memory owns its sixteen byte registers; nothing else refers to them, so the memory
  is the list itself. The data of a write is a string here, so the first assertion of
  \<open>write\<close> (the data is a \<open>str\<close>) holds by typing; the second is the length check.
\<close>

type_synonym RAM = "Register list"

definition RAM_init :: RAM where
  "RAM_init = map (\<lambda>_. ByteRegister_init) [0..<16]"

definition RAM_write :: "RAM \<Rightarrow> string \<Rightarrow> int \<Rightarrow> error + RAM" where
  "RAM_write self data address =
     (if length data \<noteq> 8 then Inl AssertionError
      else case py_index self address of
             Inl e \<Rightarrow> Inl e
           | Inr j \<Rightarrow> Inr (self[j := Register_write (self ! j) data]))"

definition RAM_read :: "RAM \<Rightarrow> int \<Rightarrow> error + string" where
  "RAM_read self address =
     (case py_index self address of
        Inl e \<Rightarrow> Inl e
      | Inr j \<Rightarrow> Inr (Register_read (self ! j)))"

section \<open>Instruction register and program counter\<close>

definition readOpCode :: "Register \<Rightarrow> string" where
  "readOpCode self = take 4 (Register_read self)"

definition readOperand :: "Register \<Rightarrow> string" where
  "readOperand self = drop 4 (Register_read self)"

definition ProgramCounter_advance :: "Register \<Rightarrow> error + Register" where
  "ProgramCounter_advance self =
     (case py_int (reg_state self) 2 of
        Inl e \<Rightarrow> Inl e
      | Inr v \<Rightarrow>
          (let v' = (v + 1) mod 2 ^ 4;
               string = py_zfill (drop 2 (py_bin v')) 4
           in Inr (self\<lparr>reg_state := string\<rparr>)))"

fun advance_times :: "nat \<Rightarrow> Register \<Rightarrow> error + Register" where
  "advance_times 0 pc = Inr pc"
| "advance_times (Suc n) pc =
     (case ProgramCounter_advance pc of
        Inl e \<Rightarrow> Inl e
      | Inr pc' \<Rightarrow> advance_times n pc')"

section \<open>The arithmetic unit\<close>

definition ALU_init :: "ref \<Rightarrow> ref \<Rightarrow> ALU" where
  "ALU_init aRegister bRegister =
     \<lparr>alu_a = aRegister, alu_b = bRegister, alu_state = replicate 8 CHR ''0''\<rparr>"

text \<open>
  \<open>update\<close> decodes the first operand, then the second, then chooses by the mode. A
  mode other than add and sub binds no result, and the read of the unbound local in the
  last line raises.
\<close>

definition ALU_update :: "ref \<Rightarrow> string \<Rightarrow> heap \<Rightarrow> error + heap" where
  "ALU_update self mode h =
     (case binary_to_decimal (read_ref h (alu_a (alus h self))) of
        Inl e \<Rightarrow> Inl e
      | Inr value_a \<Rightarrow>
     (case binary_to_decimal (read_ref h (alu_b (alus h self))) of
        Inl e \<Rightarrow> Inl e
      | Inr value_b \<Rightarrow>
     (case (if mode = ''add'' then Inr (value_a + value_b)
            else if mode = ''sub'' then Inr (value_a - value_b)
            else Inl UnboundLocalError) of
        Inl e \<Rightarrow> Inl e
      | Inr result \<Rightarrow>
          Inr (h\<lparr>alus := (alus h)
                 (self := (alus h self)\<lparr>alu_state := take 8 (decimal_to_binary result 8)\<rparr>)\<rparr>))))"

definition ALU_read :: "ref \<Rightarrow> string \<Rightarrow> heap \<Rightarrow> error + (string \<times> heap)" where
  "ALU_read self mode h =
     (case ALU_update self mode h of
        Inl e \<Rightarrow> Inl e
      | Inr h' \<Rightarrow> Inr (alu_state (alus h' self), h'))"

section \<open>Flags\<close>

text \<open>
  A flag holds one integer of state and a reference to what it watches: a register for
  the minus and zero flags, an arithmetic unit for the carry flag.
\<close>

record Flag =
  flag_state :: int
  flag_reg :: ref

definition Flag_init :: "ref \<Rightarrow> Flag" where
  "Flag_init reg = \<lparr>flag_state = 0, flag_reg = reg\<rparr>"

definition FlagMinus_update :: "heap \<Rightarrow> Flag \<Rightarrow> error + Flag" where
  "FlagMinus_update h self =
     (case binary_to_decimal (read_ref h (flag_reg self)) of
        Inl e \<Rightarrow> Inl e
      | Inr v \<Rightarrow> Inr (if v < 0 then self\<lparr>flag_state := 1\<rparr> else self\<lparr>flag_state := 0\<rparr>))"

text \<open>
  A call of the bound method \<open>update\<close> with further positional arguments. The method
  takes \<open>self\<close> alone, so any further argument makes the call raise before the body runs.
\<close>

definition FlagMinus_update_call :: "'a list \<Rightarrow> heap \<Rightarrow> Flag \<Rightarrow> error + Flag" where
  "FlagMinus_update_call args h self =
     (if args = [] then FlagMinus_update h self else Inl TypeError)"

text \<open>The read of the minus flag calls \<open>self.update(self)\<close>.\<close>

definition FlagMinus_read :: "heap \<Rightarrow> Flag \<Rightarrow> error + (int \<times> Flag)" where
  "FlagMinus_read h self =
     (case FlagMinus_update_call [self] h self of
        Inl e \<Rightarrow> Inl e
      | Inr self' \<Rightarrow> Inr (flag_state self', self'))"

definition FlagCarry_update :: "heap \<Rightarrow> Flag \<Rightarrow> error + Flag" where
  "FlagCarry_update h self =
     (case binary_to_decimal (read_ref h (alu_a (alus h (flag_reg self)))) of
        Inl e \<Rightarrow> Inl e
      | Inr va \<Rightarrow>
     (case binary_to_decimal (read_ref h (alu_b (alus h (flag_reg self)))) of
        Inl e \<Rightarrow> Inl e
      | Inr vb \<Rightarrow>
          Inr (if va + vb > 2 ^ 7 - 1 then self\<lparr>flag_state := 1\<rparr>
               else self\<lparr>flag_state := 0\<rparr>)))"

definition FlagCarry_read :: "Flag \<Rightarrow> int" where
  "FlagCarry_read self = flag_state self"

definition FlagZero_update :: "heap \<Rightarrow> Flag \<Rightarrow> error + Flag" where
  "FlagZero_update h self =
     (case binary_to_decimal (read_ref h (flag_reg self)) of
        Inl e \<Rightarrow> Inl e
      | Inr v \<Rightarrow> Inr (if v = 0 then self\<lparr>flag_state := 1\<rparr> else self\<lparr>flag_state := 0\<rparr>))"

definition FlagZero_read :: "heap \<Rightarrow> Flag \<Rightarrow> error + (int \<times> Flag)" where
  "FlagZero_read h self =
     (case FlagZero_update h self of
        Inl e \<Rightarrow> Inl e
      | Inr self' \<Rightarrow> Inr (flag_state self', self'))"

section \<open>The ring counter\<close>

record RingCounter =
  rc_state :: int
  n_time_states :: int

definition RingCounter_init :: "int \<Rightarrow> RingCounter" where
  "RingCounter_init n = \<lparr>rc_state = 0, n_time_states = n\<rparr>"

definition RingCounter_advance :: "RingCounter \<Rightarrow> error + RingCounter" where
  "RingCounter_advance self =
     (if n_time_states self = 0 then Inl ZeroDivisionError
      else Inr (self\<lparr>rc_state := (rc_state self + 1) mod n_time_states self\<rparr>))"

definition RingCounter_read :: "RingCounter \<Rightarrow> int" where
  "RingCounter_read self = rc_state self"

section \<open>Machine words\<close>

text \<open>
  A word of a given width is a string of that many characters, each 0 or 1. Its unsigned
  value reads the characters as binary digits, most significant first; its signed value
  is the two's-complement reading.
\<close>

definition is_bits :: "string \<Rightarrow> bool" where
  "is_bits s = list_all (\<lambda>c. c = CHR ''0'' \<or> c = CHR ''1'') s"

definition is_word :: "nat \<Rightarrow> string \<Rightarrow> bool" where
  "is_word w s = (length s = w \<and> is_bits s)"

fun unsigned_of :: "string \<Rightarrow> nat" where
  "unsigned_of [] = 0"
| "unsigned_of (c # s) = (if c = CHR ''1'' then 2 ^ length s else 0) + unsigned_of s"

definition signed_of :: "string \<Rightarrow> int" where
  "signed_of s =
     (if 2 * unsigned_of s < 2 ^ length s then int (unsigned_of s)
      else int (unsigned_of s) - 2 ^ length s)"

section \<open>A machine to run examples on\<close>

text \<open>
  A heap in which every register is a fresh byte register and every arithmetic unit takes
  the registers 0 and 1 as its operands.
\<close>

definition heap_init :: heap where
  "heap_init = \<lparr>regs = (\<lambda>_. ByteRegister_init), alus = (\<lambda>_. ALU_init 0 1)\<rparr>"

section \<open>Hexadecimal strings\<close>

text \<open>
  A string of hexadecimal digits, and the number it denotes with the most significant
  digit first.
\<close>

definition is_hex :: "string \<Rightarrow> bool" where
  "is_hex s = list_all (\<lambda>c. digit_value c < 16) s"

fun hex_value :: "string \<Rightarrow> nat" where
  "hex_value [] = 0"
| "hex_value (c # s) = digit_value c * 16 ^ length s + hex_value s"

section \<open>Facts about words and the primitives\<close>

lemma unsigned_of_lt: "unsigned_of s < 2 ^ length s"
  by (induction s) auto

lemma unsigned_of_snoc:
  "unsigned_of (s @ [c]) = 2 * unsigned_of s + (if c = CHR ''1'' then 1 else 0)"
  by (induction s) auto

lemma unsigned_of_zeros: "unsigned_of (replicate k CHR ''0'' @ s) = unsigned_of s"
  by (induction k) auto

lemma is_bits_Cons: "is_bits (c # s) = ((c = CHR ''0'' \<or> c = CHR ''1'') \<and> is_bits s)"
  by (simp add: is_bits_def)

lemma is_bits_append: "is_bits (s @ t) = (is_bits s \<and> is_bits t)"
  by (simp add: is_bits_def)

lemma is_bits_zeros: "is_bits (replicate k CHR ''0'')"
  by (simp add: is_bits_def list_all_iff)

lemma digit_value_bit:
  "c = CHR ''0'' \<or> c = CHR ''1'' \<Longrightarrow> digit_value c = (if c = CHR ''1'' then 1 else 0)"
  by (auto simp: digit_value_def)

lemma not_space_bit: "c = CHR ''0'' \<or> c = CHR ''1'' \<Longrightarrow> \<not> py_isspace c"
  by (auto simp: py_isspace_def)

lemma foldl_bits:
  "is_bits s \<Longrightarrow>
   foldl (\<lambda>acc c. acc * 2 + digit_value c) a s = a * 2 ^ length s + unsigned_of s"
  by (induction s arbitrary: a) (auto simp: is_bits_Cons digit_value_bit algebra_simps)

lemma filter_bits: "is_bits s \<Longrightarrow> filter (\<lambda>c. c \<noteq> CHR ''_'') s = s"
  by (induction s) (auto simp: is_bits_Cons)

lemma digits_value_bits: "is_bits s \<Longrightarrow> digits_value 2 s = unsigned_of s"
  by (simp add: digits_value_def filter_bits foldl_bits)

lemma digits_ok_bits: "is_bits s \<Longrightarrow> s \<noteq> [] \<Longrightarrow> digits_ok 2 s"
  by (induction "2::nat" s rule: digits_ok.induct) (auto simp: is_bits_Cons digit_value_bit)

lemma dropWhile_hd: "s \<noteq> [] \<Longrightarrow> \<not> P (hd s) \<Longrightarrow> dropWhile P s = s"
  by (cases s) auto

lemma py_strip_bits: "is_bits s \<Longrightarrow> py_strip s = s"
proof (cases "s = []")
  case True
  then show ?thesis by (simp add: py_strip_def)
next
  case False
  assume b: "is_bits s"
  have h: "\<not> py_isspace (hd s)"
    using b False by (cases s) (auto simp: is_bits_Cons not_space_bit)
  have "last s \<in> set s" using False by simp
  then have l: "\<not> py_isspace (hd (rev s))"
    using b False by (auto simp: hd_rev is_bits_def list_all_iff not_space_bit)
  show ?thesis using False h l by (simp add: py_strip_def dropWhile_hd)
qed

lemma py_int_bits: "is_bits s \<Longrightarrow> s \<noteq> [] \<Longrightarrow> py_int s 2 = Inr (int (unsigned_of s))"
  by (cases s; cases "tl s")
    (auto simp: py_int_def py_strip_bits Let_def is_bits_Cons base_letter_def
          digits_ok_bits digits_value_bits
          simp del: digits_ok.simps unsigned_of.simps)

lemma hd_one_iff:
  "is_bits s \<Longrightarrow> s \<noteq> [] \<Longrightarrow> (hd s = CHR ''1'') = (2 ^ length s \<le> 2 * unsigned_of s)"
  using unsigned_of_lt [of "tl s"] by (cases s) (auto simp: is_bits_Cons)

lemma binary_to_decimal_bits:
  "is_bits s \<Longrightarrow> s \<noteq> [] \<Longrightarrow> binary_to_decimal s = Inr (signed_of s)"
  using hd_one_iff [of s]
  by (cases s) (auto simp: binary_to_decimal_def py_int_bits signed_of_def simp del: unsigned_of.simps)

lemma is_bits_bin_digits: "is_bits (bin_digits n)"
  by (induction n rule: bin_digits.induct) (subst bin_digits.simps, auto simp: is_bits_append is_bits_Cons is_bits_def)

lemma bin_digits_nonempty: "bin_digits n \<noteq> []"
  by (subst bin_digits.simps) auto

lemma unsigned_of_bin_digits: "unsigned_of (bin_digits n) = n"
proof (induction n rule: bin_digits.induct)
  case (1 n)
  show ?case
  proof (cases "n < 2")
    case True
    then show ?thesis by (subst bin_digits.simps) auto
  next
    case False
    have "unsigned_of (bin_digits n) = 2 * (n div 2) + (if n mod 2 = 0 then 0 else 1)"
      using False 1 by (subst bin_digits.simps) (simp add: unsigned_of_snoc)
    also have "\<dots> = n" by presburger
    finally show ?thesis .
  qed
qed

lemma length_bin_digits: "0 < w \<Longrightarrow> n < 2 ^ w \<Longrightarrow> length (bin_digits n) \<le> w"
proof (induction n arbitrary: w rule: bin_digits.induct)
  case (1 n)
  show ?case
  proof (cases "n < 2")
    case True
    then show ?thesis using 1(2) by (subst bin_digits.simps) auto
  next
    case False
    then obtain w' where w: "w = Suc w'" "0 < w'" using 1(2,3) by (cases w; cases "w - 1") auto
    have "n div 2 < 2 ^ w'" using 1(3) w by auto
    then have "length (bin_digits (n div 2)) \<le> w'" using 1(1) [OF False w(2)] by simp
    then show ?thesis using False w by (subst bin_digits.simps) auto
  qed
qed

lemma hd_bin_digits: "hd (bin_digits n) = CHR ''0'' \<or> hd (bin_digits n) = CHR ''1''"
  using is_bits_bin_digits [of n] bin_digits_nonempty [of n]
  by (cases "bin_digits n") (auto simp: is_bits_Cons)

lemma py_zfill_bin_digits:
  "py_zfill (bin_digits n) w = replicate (w - length (bin_digits n)) CHR ''0'' @ bin_digits n"
  using hd_bin_digits [of n] bin_digits_nonempty [of n]
  by (cases "bin_digits n") (auto simp: py_zfill_def)

lemma drop_py_bin: "0 \<le> n \<Longrightarrow> drop 2 (py_bin n) = bin_digits (nat n)"
  by (simp add: py_bin_def)

lemma encode_word:
  assumes "0 < w" "n < 2 ^ w"
  shows "is_word w (py_zfill (bin_digits n) w)" "unsigned_of (py_zfill (bin_digits n) w) = n"
  using length_bin_digits [OF assms]
  by (auto simp: py_zfill_bin_digits is_word_def is_bits_append is_bits_zeros is_bits_bin_digits
      unsigned_of_zeros unsigned_of_bin_digits)

lemma unsigned_of_inj:
  "length s = length t \<Longrightarrow> is_bits s \<Longrightarrow> is_bits t \<Longrightarrow> unsigned_of s = unsigned_of t \<Longrightarrow> s = t"
proof (induction s t rule: list_induct2)
  case Nil
  then show ?case by simp
next
  case (Cons c s d t)
  have "unsigned_of s < 2 ^ length s" "unsigned_of t < 2 ^ length s" 
    using unsigned_of_lt [of s] unsigned_of_lt [of t] Cons(1) by auto
  then have "c = d \<and> unsigned_of s = unsigned_of t" using Cons(3,4,5) Cons(1)
    by (auto simp: is_bits_Cons split: if_splits)
  then show ?case using Cons by (auto simp: is_bits_Cons)
qed

lemma decimal_to_binary_word:
  assumes w: "0 < w" and lo: "- (2 ^ w) \<le> v" and hi: "v < 2 ^ w"
  shows "is_word w (decimal_to_binary v w)"
    and "int (unsigned_of (decimal_to_binary v w)) = v mod 2 ^ w"
proof -
  define n where "n = nat (v mod 2 ^ w)"
  have n: "int n = v mod 2 ^ w" by (simp add: n_def)
  have "v mod 2 ^ w < 2 ^ w" by simp
  then have nlt: "n < 2 ^ w" using n by (metis of_nat_less_iff of_nat_numeral of_nat_power)
  have shift: "v mod 2 ^ w = v + 2 ^ w" if "v < 0"
  proof -
    have "v mod 2 ^ w = (v + 2 ^ w) mod 2 ^ w" by simp
    also have "\<dots> = v + 2 ^ w" using lo that by (intro mod_pos_pos_trivial) auto
    finally show ?thesis .
  qed
  have same: "0 \<le> v \<Longrightarrow> v mod 2 ^ w = v"
    using hi by simp
  have "decimal_to_binary v w = py_zfill (bin_digits n) w"
  proof (cases "v < 0")
    case True
    have "0 \<le> v + 2 ^ w" using lo by simp
    then show ?thesis using True shift by (simp add: decimal_to_binary_def drop_py_bin n_def)
  next
    case False
    then show ?thesis using same by (simp add: decimal_to_binary_def drop_py_bin n_def)
  qed
  then show "is_word w (decimal_to_binary v w)"
    and "int (unsigned_of (decimal_to_binary v w)) = v mod 2 ^ w"
    using encode_word [OF w nlt] n by auto
qed

lemma signed_of_mod: "int (unsigned_of s) = signed_of s mod 2 ^ length s"
proof -
  have "int (unsigned_of s) < 2 ^ length s"
    using unsigned_of_lt [of s] by (metis of_nat_less_iff of_nat_numeral of_nat_power)
  then show ?thesis by (auto simp: signed_of_def)
qed

lemma signed_of_range: "s \<noteq> [] \<Longrightarrow> - (2 ^ (length s - 1)) \<le> signed_of s \<and> signed_of s < 2 ^ (length s - 1)"
proof -
  assume "s \<noteq> []"
  then obtain k where k: "length s = Suc k" by (cases s) auto
  have "int (unsigned_of s) < 2 ^ length s"
    using unsigned_of_lt [of s] by (metis of_nat_less_iff of_nat_numeral of_nat_power)
  moreover have "(2 * unsigned_of s < 2 ^ length s) = (int (unsigned_of s) < 2 ^ k)"
  proof -
    have "(2 * unsigned_of s < 2 ^ length s) = (unsigned_of s < 2 ^ k)" using k by simp
    also have "\<dots> = (int (unsigned_of s) < int (2 ^ k))" by (simp only: of_nat_less_iff)
    finally show ?thesis by simp
  qed
  ultimately show ?thesis using k by (auto simp: signed_of_def)
qed

lemma decimal_to_binary_signed:
  assumes "is_bits s" "s \<noteq> []"
  shows "decimal_to_binary (signed_of s) (length s) = s"
proof -
  have len: "0 < length s" using assms by simp
  have "(2::int) ^ (length s - 1) \<le> 2 ^ length s"
    by (rule power_increasing) auto
  then have r: "- (2 ^ length s) \<le> signed_of s" "signed_of s < 2 ^ length s"
    using signed_of_range [OF assms(2)] by linarith+
  note d = decimal_to_binary_word [OF len r]
  have "unsigned_of (decimal_to_binary (signed_of s) (length s)) = unsigned_of s"
    using d(2) signed_of_mod [of s] by simp
  then show ?thesis using d(1) assms(1) unsigned_of_inj by (auto simp: is_word_def)
qed

lemma signed_of_unsigned:
  "is_word 8 s \<Longrightarrow>
   signed_of s = (if unsigned_of s < 128 then int (unsigned_of s) else int (unsigned_of s) - 256)"
  by (auto simp: signed_of_def is_word_def)

lemma signed_of_word8_range: "is_word 8 s \<Longrightarrow> - 128 \<le> signed_of s \<and> signed_of s < 128"
proof -
  assume w: "is_word 8 s"
  then have "s \<noteq> []" "length s = 8" by (auto simp: is_word_def)
  then show ?thesis using signed_of_range [of s] by simp
qed

lemma wrap_signed:
  fixes v m :: int
  assumes m: "m = v mod 256"
  shows "(if m < 128 then m else m - 256) = (v + 128) mod 256 - 128"
proof -
  have r: "0 \<le> m" "m < 256" using m by simp_all
  have e: "(v + 128) mod 256 = (m + 128) mod 256" using m by (simp add: mod_add_left_eq)
  show ?thesis
  proof (cases "m < 128")
    case True
    then have "(m + 128) mod 256 = m + 128" using r by (intro mod_pos_pos_trivial) auto
    then show ?thesis using True e by simp
  next
    case False
    have "(m + 128) mod 256 = (m + 128 - 256) mod 256" by (simp only: minus_mod_self2)
    also have "\<dots> = m + 128 - 256" using False r by (intro mod_pos_pos_trivial) auto
    finally show ?thesis using False e by simp
  qed
qed

lemma ALU_result_word:
  assumes "- 256 \<le> v" "v < 256"
  shows "take 8 (decimal_to_binary v 8) = decimal_to_binary v 8"
    and "is_word 8 (decimal_to_binary v 8)"
    and "int (unsigned_of (decimal_to_binary v 8)) = v mod 256"
    and "signed_of (decimal_to_binary v 8) = (v + 128) mod 256 - 128"
proof -
  have d: "is_word 8 (decimal_to_binary v 8)"
    "int (unsigned_of (decimal_to_binary v 8)) = v mod 2 ^ 8"
    using decimal_to_binary_word [of 8 v] assms by auto
  show "is_word 8 (decimal_to_binary v 8)" by (rule d(1))
  show "take 8 (decimal_to_binary v 8) = decimal_to_binary v 8"
    using d(1) by (simp add: is_word_def)
  show u: "int (unsigned_of (decimal_to_binary v 8)) = v mod 256" using d(2) by simp
  have "signed_of (decimal_to_binary v 8) =
      (if int (unsigned_of (decimal_to_binary v 8)) < 128
       then int (unsigned_of (decimal_to_binary v 8))
       else int (unsigned_of (decimal_to_binary v 8)) - 256)"
    by (simp add: signed_of_unsigned [OF d(1)])
  then show "signed_of (decimal_to_binary v 8) = (v + 128) mod 256 - 128"
    using wrap_signed [OF u] by simp
qed

lemma ALU_update_word:
  assumes a: "is_word 8 (read_ref h (alu_a (alus h self)))"
    and b: "is_word 8 (read_ref h (alu_b (alus h self)))"
  shows "ALU_update self ''add'' h =
     Inr (h\<lparr>alus := (alus h)(self := (alus h self)\<lparr>alu_state :=
        decimal_to_binary (signed_of (read_ref h (alu_a (alus h self))) +
                           signed_of (read_ref h (alu_b (alus h self)))) 8\<rparr>)\<rparr>)"
    and "ALU_update self ''sub'' h =
     Inr (h\<lparr>alus := (alus h)(self := (alus h self)\<lparr>alu_state :=
        decimal_to_binary (signed_of (read_ref h (alu_a (alus h self))) -
                           signed_of (read_ref h (alu_b (alus h self)))) 8\<rparr>)\<rparr>)"
proof -
  let ?wa = "read_ref h (alu_a (alus h self))" and ?wb = "read_ref h (alu_b (alus h self))"
  have da: "binary_to_decimal ?wa = Inr (signed_of ?wa)"
    using a by (intro binary_to_decimal_bits) (auto simp: is_word_def)
  have db: "binary_to_decimal ?wb = Inr (signed_of ?wb)"
    using b by (intro binary_to_decimal_bits) (auto simp: is_word_def)
  have ra: "- 128 \<le> signed_of ?wa \<and> signed_of ?wa < 128"
    using a by (rule signed_of_word8_range)
  have rb: "- 128 \<le> signed_of ?wb \<and> signed_of ?wb < 128"
    using b by (rule signed_of_word8_range)
  have t1: "take 8 (decimal_to_binary (signed_of ?wa + signed_of ?wb) 8) =
      decimal_to_binary (signed_of ?wa + signed_of ?wb) 8"
    using ra rb by (intro ALU_result_word(1)) auto
  have t2: "take 8 (decimal_to_binary (signed_of ?wa - signed_of ?wb) 8) =
      decimal_to_binary (signed_of ?wa - signed_of ?wb) 8"
    using ra rb by (intro ALU_result_word(1)) auto
  show "ALU_update self ''add'' h =
     Inr (h\<lparr>alus := (alus h)(self := (alus h self)\<lparr>alu_state :=
        decimal_to_binary (signed_of ?wa + signed_of ?wb) 8\<rparr>)\<rparr>)"
    by (simp add: ALU_update_def da db t1)
  show "ALU_update self ''sub'' h =
     Inr (h\<lparr>alus := (alus h)(self := (alus h self)\<lparr>alu_state :=
        decimal_to_binary (signed_of ?wa - signed_of ?wb) 8\<rparr>)\<rparr>)"
    by (simp add: ALU_update_def da db t2)
qed

lemma binary_to_decimal_word8:
  "is_word 8 w \<Longrightarrow> binary_to_decimal w = Inr (signed_of w)"
  by (intro binary_to_decimal_bits) (auto simp: is_word_def)

lemma py_index_in_range:
  "0 \<le> i \<Longrightarrow> i < int (length xs) \<Longrightarrow> py_index xs i = Inr (nat i)"
  by (simp add: py_index_def)

lemma py_index_negative:
  "- int (length xs) \<le> i \<Longrightarrow> i < 0 \<Longrightarrow> py_index xs i = py_index xs (i + int (length xs))"
  by (simp add: py_index_def Let_def)

lemma py_index_out_of_range:
  "int (length xs) \<le> i \<or> i < - int (length xs) \<Longrightarrow> py_index xs i = Inl IndexError"
  by (auto simp: py_index_def Let_def)

lemma advance_word4:
  assumes w: "is_word 4 (reg_state self)"
  shows "ProgramCounter_advance self =
           Inr (self\<lparr>reg_state := py_zfill (bin_digits ((unsigned_of (reg_state self) + 1) mod 16)) 4\<rparr>)"
proof -
  have b: "is_bits (reg_state self)" "reg_state self \<noteq> []" using w by (auto simp: is_word_def)
  have "(int (unsigned_of (reg_state self)) + 1) mod 16 =
      int ((unsigned_of (reg_state self) + 1) mod 16)"
    by (simp add: of_nat_mod add.commute)
  moreover have "drop 2 (py_bin (int n)) = bin_digits n" for n
    using drop_py_bin [of "int n"] by simp
  ultimately show ?thesis
    by (simp add: ProgramCounter_advance_def py_int_bits [OF b] Let_def)
qed

lemma is_hex_Cons: "is_hex (c # s) = (digit_value c < 16 \<and> is_hex s)"
  by (simp add: is_hex_def)

lemma hex_not_space: "digit_value c < 16 \<Longrightarrow> \<not> py_isspace c"
  by (auto simp: digit_value_def py_isspace_def Let_def split: if_splits)

lemma digit_value_special:
  "digit_value CHR ''_'' = 37" "digit_value CHR ''-'' = 37" "digit_value CHR ''+'' = 37"
  "digit_value CHR ''x'' = 33" "digit_value CHR ''0'' = 0"
  by (simp_all add: digit_value_def)

lemma foldl_hex:
  "is_hex s \<Longrightarrow>
   foldl (\<lambda>acc c. acc * 16 + digit_value c) a s = a * 16 ^ length s + hex_value s"
  by (induction s arbitrary: a) (auto simp: is_hex_Cons algebra_simps)

lemma filter_hex: "is_hex s \<Longrightarrow> filter (\<lambda>c. c \<noteq> CHR ''_'') s = s"
  by (induction s) (auto simp: is_hex_Cons digit_value_special)

lemma digits_value_hex: "is_hex s \<Longrightarrow> digits_value 16 s = hex_value s"
  by (simp add: digits_value_def filter_hex foldl_hex)

lemma digits_ok_hex: "is_hex s \<Longrightarrow> s \<noteq> [] \<Longrightarrow> digits_ok 16 s"
  by (induction "16::nat" s rule: digits_ok.induct) (auto simp: is_hex_Cons digit_value_special)

lemma py_strip_hex: "is_hex s \<Longrightarrow> py_strip s = s"
proof (cases "s = []")
  case True
  then show ?thesis by (simp add: py_strip_def)
next
  case False
  assume b: "is_hex s"
  have h: "\<not> py_isspace (hd s)"
    using b False by (cases s) (auto simp: is_hex_Cons hex_not_space)
  have "last s \<in> set s" using False by simp
  then have l: "\<not> py_isspace (hd (rev s))"
    using b False by (auto simp: hd_rev is_hex_def list_all_iff hex_not_space)
  show ?thesis using False h l by (simp add: py_strip_def dropWhile_hd)
qed

lemma py_int_hex:
  assumes h: "is_hex s" and ne: "s \<noteq> []" and z: "hd s \<noteq> CHR ''0''"
  shows "py_int s 16 = Inr (int (hex_value s))"
proof -
  obtain c r where s: "s = c # r" using ne by (cases s) auto
  have c: "digit_value c < 16" "c \<noteq> CHR ''0''" using h z s by (auto simp: is_hex_Cons)
  then have c': "c \<noteq> CHR ''-''" "c \<noteq> CHR ''+''" using digit_value_special by auto
  have st: "py_strip (c # r) = c # r" using py_strip_hex [OF h] s by simp
  have "py_int s 16 =
      (if digits_ok 16 s then Inr (int (digits_value 16 s)) else Inl ValueError)"
    unfolding s using c c' by (simp add: py_int_def st Let_def split: list.split)
  then show ?thesis using digits_ok_hex [OF h ne] digits_value_hex [OF h] by simp
qed

lemma hex_value_zeros: "hex_value (dropWhile (\<lambda>c. c = CHR ''0'') s) = hex_value s"
  by (induction s) (auto simp: digit_value_special)

lemma is_hex_dropWhile: "is_hex s \<Longrightarrow> is_hex (dropWhile P s)"
  by (induction s) (auto simp: is_hex_Cons)

lemma lstrip_hex:
  assumes "is_hex d" "p = [] \<or> p = ''0x''"
  shows "py_lstrip (p @ d) ''0x'' = dropWhile (\<lambda>c. c = CHR ''0'') d"
proof -
  have "dropWhile (\<lambda>c. c = CHR ''0'' \<or> c = CHR ''x'') d = dropWhile (\<lambda>c. c = CHR ''0'') d"
    using assms(1) by (induction d) (auto simp: is_hex_Cons digit_value_special)
  then show ?thesis using assms(2) by (auto simp: py_lstrip_def)
qed

lemma unsigned_of_append:
  "unsigned_of (s @ t) = unsigned_of s * 2 ^ length t + unsigned_of t"
  by (induction s) (auto simp: power_add algebra_simps)

lemma unsigned_of_take:
  "unsigned_of (take k s) = unsigned_of s div 2 ^ (length s - k)"
proof -
  have "unsigned_of s = unsigned_of (take k s) * 2 ^ length (drop k s) + unsigned_of (drop k s)"
    using unsigned_of_append [of "take k s" "drop k s"] by simp
  moreover have "unsigned_of (drop k s) < 2 ^ length (drop k s)" by (rule unsigned_of_lt)
  ultimately show ?thesis by simp
qed

lemma bin_digits_long: "2 ^ w \<le> n \<Longrightarrow> w < length (bin_digits n)"
proof (rule ccontr)
  assume n: "2 ^ w \<le> n" and "\<not> w < length (bin_digits n)"
  then have "length (bin_digits n) \<le> w" by simp
  then have "(2::nat) ^ length (bin_digits n) \<le> 2 ^ w" by (intro power_increasing) auto
  moreover have "n < 2 ^ length (bin_digits n)"
    using unsigned_of_lt [of "bin_digits n"] by (simp add: unsigned_of_bin_digits)
  ultimately show False using n by linarith
qed

lemma hex_value_pos_nonempty: "0 < hex_value s \<Longrightarrow> dropWhile (\<lambda>c. c = CHR ''0'') s \<noteq> []"
  using hex_value_zeros [of s] by (cases "dropWhile (\<lambda>c. c = CHR ''0'') s") auto

lemma hex_to_binary_value:
  assumes s: "hex_number = p @ d" and p: "p = [] \<or> p = ''0x''"
    and d: "is_hex d" and v: "0 < hex_value d"
  shows "hex_to_binary hex_number w = Inr (take w (py_zfill (bin_digits (hex_value d)) w))"
proof -
  let ?d = "dropWhile (\<lambda>c. c = CHR ''0'') d"
  have ne: "?d \<noteq> []" using v by (rule hex_value_pos_nonempty)
  have hd: "hd ?d \<noteq> CHR ''0''" using ne hd_dropWhile [of "\<lambda>c. c = CHR ''0''" d] by simp
  have "py_int ?d 16 = Inr (int (hex_value ?d))"
    using is_hex_dropWhile [OF d] ne hd by (rule py_int_hex)
  then have "py_int (py_lstrip hex_number ''0x'') 16 = Inr (int (hex_value d))"
    by (simp add: s lstrip_hex [OF d p] hex_value_zeros)
  moreover have "drop 2 (py_bin (int (hex_value d))) = bin_digits (hex_value d)"
    using drop_py_bin [of "int (hex_value d)"] by simp
  ultimately show ?thesis by (simp add: hex_to_binary_def)
qed

section \<open>The codec round trip\<close>

text \<open>
  Claim C2. For every 8-character bit string \<open>w\<close>, decoding it as a two's-complement
  integer with \<open>binary_to_decimal\<close> succeeds, and encoding the decoded value again with
  \<open>decimal_to_binary\<close> at width 8 gives back \<open>w\<close>.
\<close>

theorem decode_encode_roundtrip:
  "is_word 8 w \<Longrightarrow> \<exists>v. binary_to_decimal w = Inr v \<and> decimal_to_binary v 8 = w"
proof -
  assume w: "is_word 8 w"
  then have b: "is_bits w" "w \<noteq> []" "length w = 8" by (auto simp: is_word_def)
  show ?thesis using binary_to_decimal_bits [OF b(1,2)] decimal_to_binary_signed [OF b(1,2)] b(3)
    by simp
qed

theorem decode_encode_roundtrip_witness:
  "is_word 8 ''10010110'' \<and> (\<exists>v. binary_to_decimal ''10010110'' = Inr v \<and> decimal_to_binary v 8 = ''10010110'')"
proof -
  have h: "is_word 8 ''10010110''" by (simp add: is_word_def is_bits_def)
  show ?thesis using h decode_encode_roundtrip [OF h] by simp
qed

section \<open>The arithmetic unit wraps modulo 256\<close>

text \<open>
  Claim C1. Let the operand registers of an arithmetic unit hold the 8-bit words \<open>wa\<close>
  and \<open>wb\<close>. Whatever the unit's own state was, \<open>read\<close> recomputes the result from
  the operands as they are now, stores it and returns it. In mode add the result is the
  8-bit word whose unsigned value is the sum of the two signed operand values modulo 256,
  in mode sub the same for their difference; read as two's complement, it is the sum
  (the difference) wrapped into the range from -128 to 127. With the operands 5 and 3,
  add returns 00001000; with the operands 3 and 5, sub returns 11111110.
\<close>

theorem ALU_read_wraps:
  assumes a: "read_ref h (alu_a (alus h self)) = wa"
    and b: "read_ref h (alu_b (alus h self)) = wb"
    and wa: "is_word 8 wa" and wb: "is_word 8 wb"
  shows "\<exists>ws wd.
      ALU_read self ''add'' h =
        Inr (ws, h\<lparr>alus := (alus h)(self := (alus h self)\<lparr>alu_state := ws\<rparr>)\<rparr>) \<and>
      is_word 8 ws \<and>
      int (unsigned_of ws) = (signed_of wa + signed_of wb) mod 2 ^ 8 \<and>
      signed_of ws = (signed_of wa + signed_of wb + 128) mod 2 ^ 8 - 128 \<and>
      ALU_read self ''sub'' h =
        Inr (wd, h\<lparr>alus := (alus h)(self := (alus h self)\<lparr>alu_state := wd\<rparr>)\<rparr>) \<and>
      is_word 8 wd \<and>
      int (unsigned_of wd) = (signed_of wa - signed_of wb) mod 2 ^ 8 \<and>
      signed_of wd = (signed_of wa - signed_of wb + 128) mod 2 ^ 8 - 128 \<and>
      (wa = ''00000101'' \<and> wb = ''00000011'' \<longrightarrow> ws = ''00001000'') \<and>
      (wa = ''00000011'' \<and> wb = ''00000101'' \<longrightarrow> wd = ''11111110'')"
proof -
  define ws where "ws = decimal_to_binary (signed_of wa + signed_of wb) 8"
  define wd where "wd = decimal_to_binary (signed_of wa - signed_of wb) 8"
  have ra: "- 128 \<le> signed_of wa \<and> signed_of wa < 128" using wa by (rule signed_of_word8_range)
  have rb: "- 128 \<le> signed_of wb \<and> signed_of wb < 128" using wb by (rule signed_of_word8_range)
  have bs: "- 256 \<le> signed_of wa + signed_of wb" "signed_of wa + signed_of wb < 256"
    using ra rb by auto
  have bd: "- 256 \<le> signed_of wa - signed_of wb" "signed_of wa - signed_of wb < 256"
    using ra rb by auto
  have s1: "is_word 8 ws" unfolding ws_def by (rule ALU_result_word(2) [OF bs])
  have s2: "int (unsigned_of ws) = (signed_of wa + signed_of wb) mod 2 ^ 8"
    unfolding ws_def using ALU_result_word(3) [OF bs] by simp
  have s3: "signed_of ws = (signed_of wa + signed_of wb + 128) mod 2 ^ 8 - 128"
    unfolding ws_def using ALU_result_word(4) [OF bs] by simp
  have d1: "is_word 8 wd" unfolding wd_def by (rule ALU_result_word(2) [OF bd])
  have d2: "int (unsigned_of wd) = (signed_of wa - signed_of wb) mod 2 ^ 8"
    unfolding wd_def using ALU_result_word(3) [OF bd] by simp
  have d3: "signed_of wd = (signed_of wa - signed_of wb + 128) mod 2 ^ 8 - 128"
    unfolding wd_def using ALU_result_word(4) [OF bd] by simp
  have wa': "is_word 8 (read_ref h (alu_a (alus h self)))" using a wa by simp
  have wb': "is_word 8 (read_ref h (alu_b (alus h self)))" using b wb by simp
  have rs: "ALU_read self ''add'' h =
        Inr (ws, h\<lparr>alus := (alus h)(self := (alus h self)\<lparr>alu_state := ws\<rparr>)\<rparr>)"
    by (simp add: ALU_read_def ALU_update_word(1) [OF wa' wb'] a b ws_def)
  have rd: "ALU_read self ''sub'' h =
        Inr (wd, h\<lparr>alus := (alus h)(self := (alus h self)\<lparr>alu_state := wd\<rparr>)\<rparr>)"
    by (simp add: ALU_read_def ALU_update_word(2) [OF wa' wb'] a b wd_def)
  have e1: "ws = ''00001000''" if "wa = ''00000101'' \<and> wb = ''00000011''"
  proof -
    have "int (unsigned_of ws) = 8" using s2 that by (simp add: signed_of_def)
    then have "unsigned_of ws = unsigned_of ''00001000''" by simp
    moreover have "is_bits ''00001000''" by (simp add: is_bits_def)
    ultimately show ?thesis using s1 by (intro unsigned_of_inj) (simp_all add: is_word_def)
  qed
  have e2: "wd = ''11111110''" if "wa = ''00000011'' \<and> wb = ''00000101''"
  proof -
    have "int (unsigned_of wd) = 254" using d2 that by (simp add: signed_of_def)
    then have "unsigned_of wd = unsigned_of ''11111110''" by simp
    moreover have "is_bits ''11111110''" by (simp add: is_bits_def)
    ultimately show ?thesis using d1 by (intro unsigned_of_inj) (simp_all add: is_word_def)
  qed
  show ?thesis
    apply (rule exI [of _ ws])
    apply (rule exI [of _ wd])
    apply (intro conjI impI)
             apply (rule rs)
            apply (rule s1)
           apply (rule s2)
          apply (rule s3)
         apply (rule rd)
        apply (rule d1)
       apply (rule d2)
      apply (rule d3)
     apply (erule e1)
    apply (erule e2)
    done
qed

theorem ALU_read_wraps_witness:
  "ALU_read 0 ''add'' (write_ref (write_ref heap_init 0 ''00000101'') 1 ''00000011'') =
     Inr (''00001000'',
          (write_ref (write_ref heap_init 0 ''00000101'') 1 ''00000011'')
            \<lparr>alus := (alus (write_ref (write_ref heap_init 0 ''00000101'') 1 ''00000011''))
               (0 := (alus (write_ref (write_ref heap_init 0 ''00000101'') 1 ''00000011'') 0)
                  \<lparr>alu_state := ''00001000''\<rparr>)\<rparr>)"
proof -
  let ?h = "write_ref (write_ref heap_init 0 ''00000101'') 1 ''00000011''"
  have a: "read_ref ?h (alu_a (alus ?h 0)) = ''00000101''"
    by (simp add: read_ref_def write_ref_def heap_init_def ALU_init_def Register_read_def
        Register_write_def)
  have b: "read_ref ?h (alu_b (alus ?h 0)) = ''00000011''"
    by (simp add: read_ref_def write_ref_def heap_init_def ALU_init_def Register_read_def
        Register_write_def)
  have wa: "is_word 8 ''00000101''" by (simp add: is_word_def is_bits_def)
  have wb: "is_word 8 ''00000011''" by (simp add: is_word_def is_bits_def)
  from ALU_read_wraps [OF a b wa wb] obtain ws where
    r: "ALU_read 0 ''add'' ?h =
          Inr (ws, ?h\<lparr>alus := (alus ?h)(0 := (alus ?h 0)\<lparr>alu_state := ws\<rparr>)\<rparr>)"
    and e: "ws = ''00001000''"
    by blast
  show ?thesis using r unfolding e .
qed

section \<open>The carry flag\<close>

text \<open>
  Claim C3 says that the carry flag is set exactly when the unsigned sum of the two
  operand words exceeds 127. The update decodes both operands with
  \<open>binary_to_decimal\<close>, which reads them as two's complement. With the operands
  10000000 and 00000000 the unsigned sum is 128, the signed sum is -128, and the update
  followed by a read gives 0.
\<close>

theorem FlagCarry_unsigned_counterexample:
  "127 < unsigned_of ''10000000'' + unsigned_of ''00000000'' \<and>
   FlagCarry_update (write_ref (write_ref heap_init 0 ''10000000'') 1 ''00000000'') (Flag_init 0) =
     Inr \<lparr>flag_state = 0, flag_reg = 0\<rparr> \<and>
   FlagCarry_read \<lparr>flag_state = 0, flag_reg = 0\<rparr> = 0"
proof -
  let ?h = "write_ref (write_ref heap_init 0 ''10000000'') 1 ''00000000''"
  have a: "read_ref ?h (alu_a (alus ?h (flag_reg (Flag_init 0)))) = ''10000000''"
    by (simp add: read_ref_def write_ref_def heap_init_def ALU_init_def Register_read_def
        Register_write_def Flag_init_def)
  have b: "read_ref ?h (alu_b (alus ?h (flag_reg (Flag_init 0)))) = ''00000000''"
    by (simp add: read_ref_def write_ref_def heap_init_def ALU_init_def Register_read_def
        Register_write_def Flag_init_def)
  have da: "binary_to_decimal ''10000000'' = Inr (- 128)"
    by (simp add: binary_to_decimal_word8 is_word_def is_bits_def signed_of_def)
  have db: "binary_to_decimal ''00000000'' = Inr 0"
    by (simp add: binary_to_decimal_word8 is_word_def is_bits_def signed_of_def)
  have "FlagCarry_update ?h (Flag_init 0) = Inr \<lparr>flag_state = 0, flag_reg = 0\<rparr>"
    unfolding FlagCarry_update_def a b da db by (simp add: Flag_init_def)
  then show ?thesis by (simp add: FlagCarry_read_def)
qed

text \<open>
  Claim C3 as amended. For 8-bit operand words \<open>wa\<close> and \<open>wb\<close> of the watched
  arithmetic unit, the update of the carry flag succeeds, keeps the watched reference, and
  a read after it returns 1 exactly when the sum of the two operands, each read as a signed
  two's-complement value, exceeds 127, and 0 otherwise.
\<close>

theorem FlagCarry_signed:
  assumes a: "read_ref h (alu_a (alus h (flag_reg self))) = wa"
    and b: "read_ref h (alu_b (alus h (flag_reg self))) = wb"
    and wa: "is_word 8 wa" and wb: "is_word 8 wb"
  shows "\<exists>self'. FlagCarry_update h self = Inr self' \<and>
           flag_reg self' = flag_reg self \<and>
           FlagCarry_read self' = (if signed_of wa + signed_of wb > 127 then 1 else 0)"
  unfolding FlagCarry_update_def a b
  by (simp add: binary_to_decimal_word8 [OF wa] binary_to_decimal_word8 [OF wb] FlagCarry_read_def)

theorem FlagCarry_signed_witness:
  "\<exists>self'. FlagCarry_update (write_ref (write_ref heap_init 0 ''01000000'') 1 ''01000000'')
              (Flag_init 0) = Inr self' \<and> FlagCarry_read self' = 1"
proof -
  let ?h = "write_ref (write_ref heap_init 0 ''01000000'') 1 ''01000000''"
  have a: "read_ref ?h (alu_a (alus ?h (flag_reg (Flag_init 0)))) = ''01000000''"
    by (simp add: read_ref_def write_ref_def heap_init_def ALU_init_def Register_read_def
        Register_write_def Flag_init_def)
  have b: "read_ref ?h (alu_b (alus ?h (flag_reg (Flag_init 0)))) = ''01000000''"
    by (simp add: read_ref_def write_ref_def heap_init_def ALU_init_def Register_read_def
        Register_write_def Flag_init_def)
  have w: "is_word 8 ''01000000''" by (simp add: is_word_def is_bits_def)
  have s: "signed_of ''01000000'' = 64" by (simp add: signed_of_def)
  from FlagCarry_signed [OF a b w w] show ?thesis unfolding s by auto
qed

section \<open>The minus flag\<close>

text \<open>
  Claim C4. The read of the minus flag should update the flag and return 1 exactly when
  the watched word is negative. The read passes the flag itself as a further argument to
  its own \<open>update\<close>, which takes none, so the call raises TypeError before the update
  runs: with the watched register holding 11111111 (decimal -1) the read raises, although
  \<open>update\<close> called by itself sets the state to 1. The zero flag, whose read calls
  \<open>update\<close> without a further argument, returns its fresh state.
\<close>

theorem FlagMinus_read_raises:
  "FlagMinus_read (write_ref heap_init 0 ''11111111'') (Flag_init 0) = Inl TypeError \<and>
   FlagMinus_update (write_ref heap_init 0 ''11111111'') (Flag_init 0) =
     Inr \<lparr>flag_state = 1, flag_reg = 0\<rparr> \<and>
   FlagZero_read (write_ref heap_init 0 ''00000000'') (Flag_init 0) =
     Inr (1, \<lparr>flag_state = 1, flag_reg = 0\<rparr>)"
proof -
  have r: "read_ref (write_ref heap_init 0 w) (flag_reg (Flag_init 0)) = w" for w
    by (simp add: read_ref_def write_ref_def Register_read_def Register_write_def Flag_init_def)
  have d1: "binary_to_decimal ''11111111'' = Inr (- 1)"
    by (simp add: binary_to_decimal_word8 is_word_def is_bits_def signed_of_def)
  have d0: "binary_to_decimal ''00000000'' = Inr 0"
    by (simp add: binary_to_decimal_word8 is_word_def is_bits_def signed_of_def)
  have 1: "FlagMinus_read (write_ref heap_init 0 ''11111111'') (Flag_init 0) = Inl TypeError"
    by (simp add: FlagMinus_read_def FlagMinus_update_call_def)
  have 2: "FlagMinus_update (write_ref heap_init 0 ''11111111'') (Flag_init 0) =
     Inr \<lparr>flag_state = 1, flag_reg = 0\<rparr>"
    unfolding FlagMinus_update_def r d1 by (simp add: Flag_init_def)
  have 3: "FlagZero_read (write_ref heap_init 0 ''00000000'') (Flag_init 0) =
     Inr (1, \<lparr>flag_state = 1, flag_reg = 0\<rparr>)"
    unfolding FlagZero_read_def FlagZero_update_def r d0 by (simp add: Flag_init_def)
  show ?thesis using 1 2 3 by simp
qed

section \<open>The memory block\<close>

text \<open>
  Claim C5 says that a write fails with a validation error exactly when the data is not
  an 8-character bit string, so also on 8 characters that are not all 0 or 1. The write
  checks the length only: the 8 letters abcdefgh are no word, and the write at address 0
  stores them, so that a read returns them.
\<close>

theorem RAM_write_alphabet_counterexample:
  "\<not> is_word 8 ''abcdefgh'' \<and>
   RAM_write RAM_init ''abcdefgh'' 0 = Inr (RAM_init[0 := \<lparr>reg_state = ''abcdefgh''\<rparr>]) \<and>
   RAM_read (RAM_init[0 := \<lparr>reg_state = ''abcdefgh''\<rparr>]) 0 = Inr ''abcdefgh''"
  by (simp add: is_word_def is_bits_def RAM_write_def RAM_read_def RAM_init_def py_index_def
      Register_write_def Register_read_def ByteRegister_init_def)

text \<open>
  Claim C5 as amended. For a memory of 16 registers and an address from 0 to 15, a write
  fails exactly when the data does not have 8 characters, and then with the validation
  error; a write of any 8 characters succeeds, keeps 16 registers and stores the data at
  the address, where a read returns it.
\<close>

theorem RAM_write_validation:
  assumes len: "length self = 16" and lo: "0 \<le> address" and hi: "address < 16"
  shows "(RAM_write self data address = Inl AssertionError) = (length data \<noteq> 8) \<and>
         (\<exists>e. RAM_write self data address = Inl e) = (length data \<noteq> 8) \<and>
         (length data = 8 \<longrightarrow>
            (\<exists>self'. RAM_write self data address = Inr self' \<and> length self' = 16 \<and>
               RAM_read self' address = Inr data))"
proof -
  have i: "py_index self address = Inr (nat address)"
    using len lo hi by (intro py_index_in_range) auto
  have i': "py_index (self[nat address := r]) address = Inr (nat address)" for r
    using len lo hi by (intro py_index_in_range) auto
  have n: "nat address < length self" using len lo hi by auto
  show ?thesis
    using n len by (auto simp: RAM_write_def RAM_read_def i i' Register_read_def Register_write_def)
qed

theorem RAM_write_validation_witness:
  "(RAM_write RAM_init ''1010101'' 3 = Inl AssertionError) \<and>
   (\<exists>self'. RAM_write RAM_init ''10101010'' 3 = Inr self' \<and> RAM_read self' 3 = Inr ''10101010'')"
proof -
  have len: "length RAM_init = 16" by (simp add: RAM_init_def)
  have lo: "(0::int) \<le> 3" and hi: "(3::int) < 16" by simp_all
  show ?thesis
    using RAM_write_validation [OF len lo hi, of "''1010101''"]
      RAM_write_validation [OF len lo hi, of "''10101010''"]
    by auto
qed

text \<open>
  Claim C6 says that every address outside 0 to 15, the negative ones included, makes a
  read or a write fail with an indexing error. The address indexes a Python list, where a
  negative index counts from the end: address -1 reads and writes register 15.
\<close>

theorem RAM_negative_address_counterexample:
  "RAM_read RAM_init (- 1) = Inr ''00000000'' \<and>
   RAM_write RAM_init ''11110000'' (- 1) = Inr (RAM_init[15 := \<lparr>reg_state = ''11110000''\<rparr>])"
proof -
  have z: "replicate 8 CHR ''0'' = ''00000000''" by (simp add: numeral_eq_Suc)
  show ?thesis
    by (simp add: RAM_write_def RAM_read_def RAM_init_def py_index_def
        Register_write_def Register_read_def ByteRegister_init_def z)
qed

text \<open>
  Claim C6 as amended. For a memory of 16 registers: at an address of 16 or more, or below
  -16, a read fails with an indexing error, and so does a write of 8 characters; at an
  address from 0 to 15 a read does not fail and a write of 8 characters does not fail; an
  address from -16 to -1 behaves as the address 16 higher.
\<close>

theorem RAM_indexing:
  assumes len: "length self = 16"
  shows "(16 \<le> address \<or> address < - 16 \<longrightarrow>
            RAM_read self address = Inl IndexError \<and>
            (length data = 8 \<longrightarrow> RAM_write self data address = Inl IndexError)) \<and>
         (0 \<le> address \<and> address < 16 \<longrightarrow>
            (\<exists>w. RAM_read self address = Inr w) \<and>
            (length data = 8 \<longrightarrow> (\<exists>self'. RAM_write self data address = Inr self'))) \<and>
         (- 16 \<le> address \<and> address < 0 \<longrightarrow>
            RAM_read self address = RAM_read self (address + 16) \<and>
            RAM_write self data address = RAM_write self data (address + 16))"
proof (intro conjI impI)
  assume o: "16 \<le> address \<or> address < - 16"
  then have i: "py_index self address = Inl IndexError"
    using len by (intro py_index_out_of_range) auto
  show "RAM_read self address = Inl IndexError" by (simp add: RAM_read_def i)
  show "RAM_write self data address = Inl IndexError" if "length data = 8"
    using that by (simp add: RAM_write_def i)
next
  assume r: "0 \<le> address \<and> address < 16"
  then have i: "py_index self address = Inr (nat address)"
    using len by (intro py_index_in_range) auto
  show "\<exists>w. RAM_read self address = Inr w" by (simp add: RAM_read_def i)
  show "\<exists>self'. RAM_write self data address = Inr self'" if "length data = 8"
    using that by (simp add: RAM_write_def i)
next
  assume r: "- 16 \<le> address \<and> address < 0"
  then have i: "py_index self address = py_index self (address + 16)"
    using len py_index_negative [of self address] by simp
  show "RAM_read self address = RAM_read self (address + 16)" by (simp add: RAM_read_def i)
  show "RAM_write self data address = RAM_write self data (address + 16)"
    by (simp add: RAM_write_def i)
qed

theorem RAM_indexing_witness:
  "RAM_read RAM_init 16 = Inl IndexError \<and>
   RAM_write RAM_init ''10101010'' 16 = Inl IndexError \<and>
   RAM_read RAM_init (- 17) = Inl IndexError \<and>
   (\<exists>w. RAM_read RAM_init 15 = Inr w) \<and>
   (\<exists>self'. RAM_write RAM_init ''10101010'' 15 = Inr self') \<and>
   RAM_read RAM_init (- 16) = RAM_read RAM_init 0"
proof -
  have len: "length RAM_init = 16" by (simp add: RAM_init_def)
  show ?thesis
    using RAM_indexing [OF len, of 16 "''10101010''"] RAM_indexing [OF len, of "- 17" "''10101010''"]
      RAM_indexing [OF len, of 15 "''10101010''"] RAM_indexing [OF len, of "- 16" "''10101010''"]
    by simp
qed

text \<open>
  Claim C10. A write is local to its address: for a memory of 16 registers, addresses
  \<open>i\<close> and \<open>j\<close> from 0 to 15 with \<open>j \<noteq> i\<close> and an 8-bit word \<open>d\<close>, the write of
  \<open>d\<close> at \<open>i\<close> succeeds and a read at \<open>j\<close> returns afterwards what it returned
  before.
\<close>

theorem RAM_write_frame:
  assumes len: "length self = 16"
    and i: "0 \<le> i" "i < 16" and j: "0 \<le> j" "j < 16" and ne: "j \<noteq> i"
    and d: "is_word 8 d"
  shows "\<exists>self'. RAM_write self d i = Inr self' \<and> RAM_read self' j = RAM_read self j"
proof -
  have pi: "py_index self i = Inr (nat i)" using len i by (intro py_index_in_range) auto
  have pj: "py_index self j = Inr (nat j)" using len j by (intro py_index_in_range) auto
  have pj': "py_index (self[nat i := r]) j = Inr (nat j)" for r
    using len j by (intro py_index_in_range) auto
  have "nat j \<noteq> nat i" using i j ne by auto
  then show ?thesis
    using d by (simp add: RAM_write_def RAM_read_def pi pj pj' is_word_def)
qed

theorem RAM_write_frame_witness:
  "\<exists>self'. RAM_write RAM_init ''10101010'' 3 = Inr self' \<and> RAM_read self' 4 = RAM_read RAM_init 4"
proof -
  have len: "length RAM_init = 16" by (simp add: RAM_init_def)
  have w: "is_word 8 ''10101010''" by (simp add: is_word_def is_bits_def)
  show ?thesis using RAM_write_frame [OF len _ _ _ _ _ w, of 3 4] by simp
qed

section \<open>The program counter\<close>

text \<open>
  Claim C8. On a stored 4-bit word \<open>advance\<close> does not fail: it overwrites the state with
  the 4-bit word whose unsigned value is the old unsigned value plus one, modulo 16. The
  fresh counter holds 0000, and 16 calls of \<open>advance\<close> from there lead back to it.
\<close>

theorem ProgramCounter_advance_mod16:
  "(is_word 4 (reg_state self) \<longrightarrow>
      (\<exists>w. ProgramCounter_advance self = Inr (self\<lparr>reg_state := w\<rparr>) \<and> is_word 4 w \<and>
           unsigned_of w = (unsigned_of (reg_state self) + 1) mod 16)) \<and>
   advance_times 16 NibbleRegister_init = Inr NibbleRegister_init \<and>
   reg_state NibbleRegister_init = ''0000''"
proof (intro conjI impI)
  assume w: "is_word 4 (reg_state self)"
  have lt: "(unsigned_of (reg_state self) + 1) mod 16 < 2 ^ 4" by simp
  have pos: "(0::nat) < 4" by simp
  show "\<exists>w. ProgramCounter_advance self = Inr (self\<lparr>reg_state := w\<rparr>) \<and> is_word 4 w \<and>
           unsigned_of w = (unsigned_of (reg_state self) + 1) mod 16"
    using encode_word [OF pos lt] advance_word4 [OF w] by blast
next
  show "advance_times 16 NibbleRegister_init = Inr NibbleRegister_init" by code_simp
next
  show "reg_state NibbleRegister_init = ''0000''" by code_simp
qed

theorem ProgramCounter_advance_mod16_witness:
  "is_word 4 ''1111'' \<and>
   (\<exists>w. ProgramCounter_advance \<lparr>reg_state = ''1111''\<rparr> = Inr \<lparr>reg_state = w\<rparr> \<and> unsigned_of w = 0)"
proof -
  have w: "is_word 4 (reg_state \<lparr>reg_state = ''1111''\<rparr>)" by (simp add: is_word_def is_bits_def)
  show ?thesis using w ProgramCounter_advance_mod16 [of "\<lparr>reg_state = ''1111''\<rparr>"] by auto
qed

section \<open>Which operations cannot raise\<close>

text \<open>
  Claim C9 says that the arithmetic unit completes without raising for every mode string.
  The update handles the modes add and sub only; with any other mode, here mul, no
  result is bound and the update, and so the read, raises UnboundLocalError. In the
  same way a ring counter made with 0 time states raises on its first advance.
\<close>

theorem unsupported_mode_counterexample:
  "ALU_update 0 ''mul'' heap_init = Inl UnboundLocalError \<and>
   ALU_read 0 ''mul'' heap_init = Inl UnboundLocalError \<and>
   RingCounter_advance (RingCounter_init 0) = Inl ZeroDivisionError"
proof -
  have w: "is_word 8 (replicate 8 CHR ''0'')" by (simp add: is_word_def is_bits_zeros)
  have r: "read_ref heap_init k = replicate 8 CHR ''0''" for k
    by (simp add: read_ref_def heap_init_def Register_read_def ByteRegister_init_def)
  have u: "ALU_update 0 ''mul'' heap_init = Inl UnboundLocalError"
    by (simp add: ALU_update_def r binary_to_decimal_word8 [OF w])
  then show ?thesis
    by (simp add: ALU_read_def RingCounter_advance_def RingCounter_init_def)
qed

text \<open>
  Claim C9 as amended. These operations complete without raising: the update and the read
  of an arithmetic unit in mode add or sub when both operand registers hold 8-bit words;
  the update and the read of the zero flag and the update of the minus flag when the
  watched register holds an 8-bit word; the update of the carry flag when both operands of
  the watched unit hold 8-bit words; the advance of the program counter on a 4-bit word;
  the advance of a ring counter whose number of time states is not 0. Reading and writing
  a register are total functions of the model and cannot raise.
\<close>

theorem operations_do_not_raise:
  "(is_word 8 (read_ref h (alu_a (alus h self))) \<and>
    is_word 8 (read_ref h (alu_b (alus h self))) \<and>
    (mode = ''add'' \<or> mode = ''sub'') \<longrightarrow>
      (\<exists>h'. ALU_update self mode h = Inr h') \<and> (\<exists>r. ALU_read self mode h = Inr r)) \<and>
   (is_word 8 (read_ref h (flag_reg f)) \<longrightarrow>
      (\<exists>f'. FlagZero_update h f = Inr f') \<and> (\<exists>r. FlagZero_read h f = Inr r) \<and>
      (\<exists>f'. FlagMinus_update h f = Inr f')) \<and>
   (is_word 8 (read_ref h (alu_a (alus h (flag_reg c)))) \<and>
    is_word 8 (read_ref h (alu_b (alus h (flag_reg c)))) \<longrightarrow>
      (\<exists>c'. FlagCarry_update h c = Inr c')) \<and>
   (is_word 4 (reg_state pc) \<longrightarrow> (\<exists>pc'. ProgramCounter_advance pc = Inr pc')) \<and>
   (n_time_states rc \<noteq> 0 \<longrightarrow> (\<exists>rc'. RingCounter_advance rc = Inr rc'))"
proof (intro conjI impI)
  assume a: "is_word 8 (read_ref h (alu_a (alus h self))) \<and>
    is_word 8 (read_ref h (alu_b (alus h self))) \<and> (mode = ''add'' \<or> mode = ''sub'')"
  then have u: "\<exists>h'. ALU_update self mode h = Inr h'"
    using ALU_update_word [of h self] by auto
  then show "\<exists>h'. ALU_update self mode h = Inr h'" .
  from u show "\<exists>r. ALU_read self mode h = Inr r" by (auto simp: ALU_read_def)
next
  assume w: "is_word 8 (read_ref h (flag_reg f))"
  note d = binary_to_decimal_word8 [OF w]
  show "\<exists>f'. FlagZero_update h f = Inr f'" by (simp add: FlagZero_update_def d)
  show "\<exists>r. FlagZero_read h f = Inr r" by (simp add: FlagZero_read_def FlagZero_update_def d)
  show "\<exists>f'. FlagMinus_update h f = Inr f'" by (simp add: FlagMinus_update_def d)
next
  assume w: "is_word 8 (read_ref h (alu_a (alus h (flag_reg c)))) \<and>
    is_word 8 (read_ref h (alu_b (alus h (flag_reg c))))"
  then show "\<exists>c'. FlagCarry_update h c = Inr c'"
    by (simp add: FlagCarry_update_def binary_to_decimal_word8)
next
  assume "is_word 4 (reg_state pc)"
  then show "\<exists>pc'. ProgramCounter_advance pc = Inr pc'" by (simp add: advance_word4)
next
  assume "n_time_states rc \<noteq> 0"
  then show "\<exists>rc'. RingCounter_advance rc = Inr rc'" by (simp add: RingCounter_advance_def)
qed

theorem operations_do_not_raise_witness:
  "(\<exists>h'. ALU_update 0 ''sub'' heap_init = Inr h') \<and>
   (\<exists>r. ALU_read 0 ''sub'' heap_init = Inr r) \<and>
   (\<exists>r. FlagZero_read heap_init (Flag_init 0) = Inr r) \<and>
   (\<exists>c'. FlagCarry_update heap_init (Flag_init 0) = Inr c') \<and>
   (\<exists>pc'. ProgramCounter_advance NibbleRegister_init = Inr pc') \<and>
   (\<exists>rc'. RingCounter_advance (RingCounter_init 6) = Inr rc')"
proof -
  have r: "read_ref heap_init k = replicate 8 CHR ''0''" for k
    by (simp add: read_ref_def heap_init_def Register_read_def ByteRegister_init_def)
  have w: "is_word 8 (read_ref heap_init k)" for k
    unfolding r by (simp add: is_word_def is_bits_zeros)
  have p: "is_word 4 (reg_state NibbleRegister_init)"
    by (simp add: NibbleRegister_init_def is_word_def is_bits_zeros)
  have n: "n_time_states (RingCounter_init 6) \<noteq> 0" by (simp add: RingCounter_init_def)
  show ?thesis
    using operations_do_not_raise [of heap_init 0 "''sub''" "Flag_init 0" "Flag_init 0"
        NibbleRegister_init "RingCounter_init 6"] w p n
    by blast
qed

section \<open>Hexadecimal to binary\<close>

text \<open>
  Claim C7 says that \<open>hex_to_binary\<close> returns a string of the width for every
  hexadecimal string, and that a value that needs more bits loses its high-order bits.
  The slice takes the first characters of the binary digits: the string 100 denotes 256,
  at width 8 the result is 10000000, which is 128 and not 256 modulo 256. The strip
  removes every leading 0 and x, so the string 0x0 loses all its characters and the
  parse raises ValueError.
\<close>

theorem hex_to_binary_truncation_counterexample:
  "hex_value ''100'' = 256 \<and>
   hex_to_binary ''100'' 8 = Inr ''10000000'' \<and>
   unsigned_of ''10000000'' \<noteq> 256 mod 2 ^ 8 \<and>
   hex_to_binary ''0x0'' 8 = Inl ValueError"
proof -
  have 1: "hex_value ''100'' = 256" by (simp add: digit_value_def)
  have 2: "hex_to_binary ''100'' 8 = Inr ''10000000''" by code_simp
  have 3: "unsigned_of ''10000000'' \<noteq> 256 mod 2 ^ 8" by simp
  have 4: "hex_to_binary ''0x0'' 8 = Inl ValueError" by code_simp
  show ?thesis using 1 2 3 4 by blast
qed

text \<open>
  Claim C7 as amended. Let the input be hexadecimal digits that denote a number other than
  0, with or without the prefix 0x before them, and let the width be any natural number.
  Then \<open>hex_to_binary\<close> returns a bit string of exactly the width. When the number fits the width, the result is the number
  padded with zeros on the left. When the number needs more bits, the result is the first
  binary digits of the number up to the width: the high-order bits are kept and the
  low-order bits are dropped.
\<close>

theorem hex_to_binary_keeps_high_bits:
  assumes s: "hex_number = p @ d" and p: "p = [] \<or> p = ''0x''"
    and d: "is_hex d" and v: "0 < hex_value d"
  shows "\<exists>r. hex_to_binary hex_number w = Inr r \<and> is_word w r \<and>
           (hex_value d < 2 ^ w \<longrightarrow> unsigned_of r = hex_value d) \<and>
           (2 ^ w \<le> hex_value d \<longrightarrow>
              r = take w (bin_digits (hex_value d)) \<and>
              unsigned_of r = hex_value d div 2 ^ (length (bin_digits (hex_value d)) - w))"
proof -
  let ?n = "hex_value d"
  let ?r = "take w (py_zfill (bin_digits ?n) w)"
  have e: "hex_to_binary hex_number w = Inr ?r" using s p d v by (rule hex_to_binary_value)
  have z: "py_zfill (bin_digits ?n) w =
      replicate (w - length (bin_digits ?n)) CHR ''0'' @ bin_digits ?n"
    by (rule py_zfill_bin_digits)
  have bits: "is_bits (py_zfill (bin_digits ?n) w)"
    unfolding z by (simp add: is_bits_append is_bits_zeros is_bits_bin_digits)
  have "is_bits ?r" using bits by (auto simp: is_bits_def list_all_iff dest: in_set_takeD)
  moreover have "length ?r = w" unfolding z by auto
  ultimately have w: "is_word w ?r" by (simp add: is_word_def)
  have small: "unsigned_of ?r = ?n" if "?n < 2 ^ w"
  proof -
    have "0 < w" using that v by (cases w) auto
    then have "length (bin_digits ?n) \<le> w" using that by (rule length_bin_digits)
    then have "?r = py_zfill (bin_digits ?n) w" unfolding z by simp
    then show ?thesis unfolding z by (simp add: unsigned_of_zeros unsigned_of_bin_digits)
  qed
  have large: "?r = take w (bin_digits ?n) \<and>
      unsigned_of ?r = ?n div 2 ^ (length (bin_digits ?n) - w)" if "2 ^ w \<le> ?n"
  proof -
    have "w < length (bin_digits ?n)" using that by (rule bin_digits_long)
    then have "?r = take w (bin_digits ?n)" unfolding z by simp
    then show ?thesis using unsigned_of_take [of w "bin_digits ?n"]
      by (simp add: unsigned_of_bin_digits)
  qed
  show ?thesis using e w small large by blast
qed

theorem hex_to_binary_keeps_high_bits_witness:
  "(\<exists>r. hex_to_binary ''0x1F'' 8 = Inr r \<and> is_word 8 r \<and> unsigned_of r = 31) \<and>
   (\<exists>r. hex_to_binary ''1F'' 3 = Inr r \<and> is_word 3 r \<and> r = take 3 (bin_digits 31))"
proof -
  have d: "is_hex ''1F''" by (simp add: is_hex_def digit_value_def)
  have v: "hex_value ''1F'' = 31" by (simp add: digit_value_def)
  have v': "0 < hex_value ''1F''" using v by simp
  have s1: "''0x1F'' = ''0x'' @ ''1F''" by simp
  have s2: "''1F'' = [] @ ''1F''" by simp
  show ?thesis
    using hex_to_binary_keeps_high_bits [OF s1 _ d v', of 8]
      hex_to_binary_keeps_high_bits [OF s2 _ d v', of 3]
    unfolding v by simp
qed

end
